theory Spec2Isabelle
  imports Main "HOL-Library.Multiset" "HOL-Library.AList"
begin

section \<open>Data model\<close>

text \<open>
  The objects of a cannoli graph live in a store and are shared by reference: every
  object holds the same \<open>graph\<close> (a JavaScript object used as a dictionary from ids to
  objects), and a status written through one reference is read through all others.
  The store is therefore explicit: \<open>heap\<close> maps a reference to the object stored
  there, \<open>graph\<close> maps an id to a reference.

  \<^item> \<open>CannoliObjectStatus\<close> is the enum of \<^verbatim>\<open>object.ts\<close> (four members).
  \<^item> A dependency term has the TypeScript type \<^verbatim>\<open>string | string[]\<close>; the two
    alternatives of \<^verbatim>\<open>Array.isArray\<close> become the two constructors of \<open>dependency\<close>.
  \<^item> A listener is one of the two closures that \<^verbatim>\<open>setupListeners\<close> registers. The
    closure of an array term captures \<^verbatim>\<open>this\<close>, the array \<^verbatim>\<open>dependency\<close> and the
    \<^verbatim>\<open>element\<close>; the closure of a single term captures \<^verbatim>\<open>this\<close>.
  \<^item> JavaScript numbers are modelled as \<open>int\<close>: canvas coordinates and sizes are whole
    pixels, on which \<^verbatim>\<open>+\<close>, \<^verbatim>\<open>*\<close>, \<^verbatim>\<open>-\<close> and the comparisons are exact.
  \<^item> \<open>is_vertex\<close> is the class tag read by \<^verbatim>\<open>instanceof CannoliVertex\<close>; the fields
    \<open>canvasData\<close> and \<open>groups\<close> belong to \<^verbatim>\<open>CannoliVertex\<close> and are meaningful only
    when the tag is set. The remaining fields of the classes (text, isClone, vault,
    kind, the edge lists) are read by none of the methods below and are left out.
\<close>

type_synonym ref = nat

datatype CannoliObjectStatus = Pending | Executing | Complete | Rejected

datatype dependency = Single string | Alternatives "string list"

datatype listener = SingleListener ref | AlternativeListener ref "string list" string

record canvasData =
  canvas_x :: int
  canvas_y :: int
  canvas_width :: int
  canvas_height :: int
  canvas_type :: string

record CannoliObject =
  obj_id :: string
  status :: CannoliObjectStatus
  dependencies :: "dependency list"
  listeners :: "listener list"
  is_vertex :: bool
  canvasData :: canvasData
  groups :: "string list"

section \<open>Rectangles: createRectangle, encloses, overlaps\<close>

record rectangle =
  rect_x :: int
  rect_y :: int
  rect_width :: int
  rect_height :: int
  x_right :: int
  y_bottom :: int

definition createRectangle :: "int \<Rightarrow> int \<Rightarrow> int \<Rightarrow> int \<Rightarrow> rectangle" where
  "createRectangle px py w h =
     \<lparr>rect_x = px, rect_y = py, rect_width = w, rect_height = h,
      x_right = px + w, y_bottom = py + h\<rparr>"

definition encloses :: "rectangle \<Rightarrow> rectangle \<Rightarrow> bool" where
  "encloses a b \<longleftrightarrow>
     rect_x a \<le> rect_x b \<and> rect_y a \<le> rect_y b \<and>
     x_right a \<ge> x_right b \<and> y_bottom a \<ge> y_bottom b"

definition horizontalOverlap :: "rectangle \<Rightarrow> rectangle \<Rightarrow> bool" where
  "horizontalOverlap a b \<longleftrightarrow> rect_x a < x_right b \<and> x_right a > rect_x b"

definition verticalOverlap :: "rectangle \<Rightarrow> rectangle \<Rightarrow> bool" where
  "verticalOverlap a b \<longleftrightarrow> rect_y a < y_bottom b \<and> y_bottom a > rect_y b"

definition overlaps :: "rectangle \<Rightarrow> rectangle \<Rightarrow> bool" where
  "overlaps a b \<longleftrightarrow>
     (let overlap = horizontalOverlap a b \<and> verticalOverlap a b
      in overlap \<and> \<not> encloses a b \<and> \<not> encloses b a)"

section \<open>The store, the observation trace and outcomes\<close>

text \<open>
  \<open>graph\<close> is the dictionary \<^verbatim>\<open>Record<string, CannoliObject>\<close> as an association list
  in the enumeration order of \<^verbatim>\<open>for ... in\<close> (insertion order; the keys of a
  JavaScript object are distinct). The ids are those of canvas items: none is the
  name of a property of \<^verbatim>\<open>Object.prototype\<close> and none is an array index, which
  \<^verbatim>\<open>for ... in\<close> would enumerate before the other keys. \<open>trace\<close> is an observation log that the program
  does not have: each write of a status field, each call of \<^verbatim>\<open>emit("update", ...)\<close>
  and each call of \<^verbatim>\<open>run()\<close> or \<^verbatim>\<open>mockRun()\<close> appends one entry, so that the order of
  these steps can be stated.

  An exception leaves the store as it is at the \<^verbatim>\<open>throw\<close>, so a thrown outcome carries
  the world as well. \<open>TypeError\<close> is the error of reading a property of \<^verbatim>\<open>undefined\<close>
  (an id with no entry in the graph), \<open>RangeError\<close> the exhaustion of the call stack,
  \<open>DuplicateAlternativeError\<close> and \<open>ConflictingAlternativesError\<close> are the two
  \<^verbatim>\<open>new Error(...)\<close> of \<^verbatim>\<open>addDependency\<close> and of the listener, under the names
  the specification gives them, and \<open>Fault\<close> is whatever a unit of work throws.
\<close>

datatype unit_of_work = RunMethod | MockRunMethod

datatype event =
  StatusWritten ref CannoliObjectStatus
| Emitted ref CannoliObjectStatus
| Invoked ref unit_of_work

record world =
  heap :: "ref \<Rightarrow> CannoliObject"
  graph :: "(string \<times> ref) list"
  trace :: "event list"

datatype error =
  TypeError
| RangeError
| DuplicateAlternativeError
| ConflictingAlternativesError
| Fault string

datatype outcome = Returns world | Throws error world

fun world_of :: "outcome \<Rightarrow> world" where
  "world_of (Returns w) = w"
| "world_of (Throws e w) = w"

fun then_do :: "outcome \<Rightarrow> (world \<Rightarrow> outcome) \<Rightarrow> outcome" where
  "then_do (Returns w) f = f w"
| "then_do (Throws e w) f = Throws e w"

definition graph_at :: "world \<Rightarrow> string \<Rightarrow> ref option" where
  "graph_at w k = map_of (graph w) k"

definition log_event :: "event \<Rightarrow> world \<Rightarrow> world" where
  "log_event ev w = w\<lparr>trace := trace w @ [ev]\<rparr>"

definition set_status :: "ref \<Rightarrow> CannoliObjectStatus \<Rightarrow> world \<Rightarrow> world" where
  "set_status this s w =
     log_event (StatusWritten this s)
       (w\<lparr>heap := (heap w)(this := (heap w this)\<lparr>status := s\<rparr>)\<rparr>)"

section \<open>CannoliObject: addDependency and isDependency\<close>

fun term_includes :: "dependency \<Rightarrow> string \<Rightarrow> bool" where
  "term_includes (Alternatives ds) pd = (pd \<in> set ds)"
| "term_includes (Single d) pd = (d = pd)"

fun potentialDependencies :: "dependency \<Rightarrow> string list" where
  "potentialDependencies (Alternatives ds) = ds"
| "potentialDependencies (Single d) = [d]"

definition isDependency :: "world \<Rightarrow> ref \<Rightarrow> dependency \<Rightarrow> bool" where
  "isDependency w this potentialDependency =
     list_ex (\<lambda>pd. list_ex (\<lambda>d. term_includes d pd) (dependencies (heap w this)))
       (potentialDependencies potentialDependency)"

definition addDependency :: "ref \<Rightarrow> dependency \<Rightarrow> world \<Rightarrow> outcome" where
  "addDependency this d w =
     (if isDependency w this d then Throws DuplicateAlternativeError w
      else Returns (w\<lparr>heap := (heap w)(this := (heap w this)
                       \<lparr>dependencies := dependencies (heap w this) @ [d]\<rparr>)\<rparr>))"

section \<open>CannoliObject: allDependenciesComplete\<close>

text \<open>
  \<^verbatim>\<open>dependency.some(dep => this.graph[dep].status !== Complete)\<close>: the members are
  visited from the left, the visit stops at the first member that is not Complete, and
  reading \<^verbatim>\<open>.status\<close> of a missing entry throws.
\<close>

fun some_not_complete :: "world \<Rightarrow> string list \<Rightarrow> error + bool" where
  "some_not_complete w [] = Inr False"
| "some_not_complete w (d # ds) =
     (case graph_at w d of
        None \<Rightarrow> Inl TypeError
      | Some r \<Rightarrow> if status (heap w r) \<noteq> Complete then Inr True
                  else some_not_complete w ds)"

fun allComplete_loop :: "world \<Rightarrow> dependency list \<Rightarrow> error + bool" where
  "allComplete_loop w [] = Inr True"
| "allComplete_loop w (Alternatives ds # rest) =
     (case some_not_complete w ds of
        Inl e \<Rightarrow> Inl e
      | Inr b \<Rightarrow> if b then Inr False else allComplete_loop w rest)"
| "allComplete_loop w (Single d # rest) =
     (case graph_at w d of
        None \<Rightarrow> Inl TypeError
      | Some r \<Rightarrow> if status (heap w r) \<noteq> Complete then Inr False
                  else allComplete_loop w rest)"

definition allDependenciesComplete :: "world \<Rightarrow> ref \<Rightarrow> error + bool" where
  "allDependenciesComplete w this = allComplete_loop w (dependencies (heap w this))"

section \<open>CannoliObject: tryReject, the listeners and emit\<close>

text \<open>
  \<^verbatim>\<open>emit\<close> calls the listeners of the emitting object synchronously, a listener of a
  Rejected notification calls \<^verbatim>\<open>tryReject\<close> of its owner, and \<^verbatim>\<open>tryReject\<close> emits
  again: the three are mutually recursive, and on a cyclic graph the recursion need not
  end. The functions of this section take the recursive call as a parameter
  (\<open>em\<close>: emit, \<open>tr\<close>: tryReject); \<open>tryReject\<close> below closes the recursion with the
  remaining depth of the call stack as its first argument.

  \<^verbatim>\<open>dependency.every(d => this.graph[d].status === Rejected)\<close> stops at the first member
  that is not Rejected and is true of the empty array.
\<close>

fun every_rejected :: "world \<Rightarrow> string list \<Rightarrow> error + bool" where
  "every_rejected w [] = Inr True"
| "every_rejected w (d # ds) =
     (case graph_at w d of
        None \<Rightarrow> Inl TypeError
      | Some r \<Rightarrow> if status (heap w r) = Rejected then every_rejected w ds
                  else Inr False)"

fun fully_rejected :: "world \<Rightarrow> dependency \<Rightarrow> error + bool" where
  "fully_rejected w (Alternatives ds) = every_rejected w ds"
| "fully_rejected w (Single d) =
     (case graph_at w d of
        None \<Rightarrow> Inl TypeError
      | Some r \<Rightarrow> Inr (status (heap w r) = Rejected))"

text \<open>
  The callback that \<^verbatim>\<open>tryReject\<close> passes to \<^verbatim>\<open>this.dependencies.every\<close> returns
  \<^verbatim>\<open>true\<close> after rejecting and \<^verbatim>\<open>undefined\<close> otherwise, and \<^verbatim>\<open>every\<close> visits the next
  term only after a truthy result: the scan stops at the first term that is not fully
  rejected. \<^verbatim>\<open>tryReject\<close> itself returns \<^verbatim>\<open>false\<close> on every path, so only its effect
  on the world is modelled.
\<close>

fun tryReject_every ::
  "(ref \<Rightarrow> CannoliObjectStatus \<Rightarrow> world \<Rightarrow> outcome) \<Rightarrow> ref \<Rightarrow> dependency list \<Rightarrow> world \<Rightarrow> outcome"
where
  "tryReject_every em this [] w = Returns w"
| "tryReject_every em this (d # ds) w =
     (case fully_rejected w d of
        Inl e \<Rightarrow> Throws e w
      | Inr b \<Rightarrow>
          if b then then_do (em this Rejected (set_status this Rejected w))
                      (tryReject_every em this ds)
          else Returns w)"

definition dependencyCompleted :: "ref \<Rightarrow> world \<Rightarrow> outcome" where
  "dependencyCompleted this w = Returns w"

definition dependencyRejected :: "(ref \<Rightarrow> world \<Rightarrow> outcome) \<Rightarrow> ref \<Rightarrow> world \<Rightarrow> outcome" where
  "dependencyRejected tr this w = tr this w"

definition dependencyUpdated ::
  "(ref \<Rightarrow> world \<Rightarrow> outcome) \<Rightarrow> ref \<Rightarrow> CannoliObjectStatus \<Rightarrow> world \<Rightarrow> outcome"
where
  "dependencyUpdated tr this s w =
     (case s of
        Complete \<Rightarrow> dependencyCompleted this w
      | Rejected \<Rightarrow> dependencyRejected tr this w
      | _ \<Rightarrow> Returns w)"

text \<open>
  \<^verbatim>\<open>dependency.filter(d => this.graph[d].status === Complete).length\<close>: every member
  is visited, one count per array position.
\<close>

fun count_complete :: "world \<Rightarrow> string list \<Rightarrow> error + nat" where
  "count_complete w [] = Inr 0"
| "count_complete w (d # ds) =
     (case graph_at w d of
        None \<Rightarrow> Inl TypeError
      | Some r \<Rightarrow>
          (case count_complete w ds of
             Inl e \<Rightarrow> Inl e
           | Inr k \<Rightarrow> Inr (if status (heap w r) = Complete then Suc k else k)))"

fun call_listener ::
  "(ref \<Rightarrow> world \<Rightarrow> outcome) \<Rightarrow> listener \<Rightarrow> CannoliObjectStatus \<Rightarrow> world \<Rightarrow> outcome"
where
  "call_listener tr (AlternativeListener this deps element) s w =
     (if s = Complete then
        (case count_complete w deps of
           Inl e \<Rightarrow> Throws e w
         | Inr k \<Rightarrow>
             if k > 1 then Throws ConflictingAlternativesError w
             else dependencyUpdated tr this s w)
      else dependencyUpdated tr this s w)"
| "call_listener tr (SingleListener this) s w = dependencyUpdated tr this s w"

fun call_listeners ::
  "(ref \<Rightarrow> world \<Rightarrow> outcome) \<Rightarrow> listener list \<Rightarrow> CannoliObjectStatus \<Rightarrow> world \<Rightarrow> outcome"
where
  "call_listeners tr [] s w = Returns w"
| "call_listeners tr (l # ls) s w = then_do (call_listener tr l s w) (call_listeners tr ls s)"

definition emit_update ::
  "(ref \<Rightarrow> world \<Rightarrow> outcome) \<Rightarrow> ref \<Rightarrow> CannoliObjectStatus \<Rightarrow> world \<Rightarrow> outcome"
where
  "emit_update tr this s w =
     call_listeners tr (listeners (heap w this)) s (log_event (Emitted this s) w)"

primrec tryReject :: "nat \<Rightarrow> ref \<Rightarrow> world \<Rightarrow> outcome" where
  "tryReject 0 this w = Throws RangeError w"
| "tryReject (Suc n) this w =
     tryReject_every (emit_update (tryReject n)) this (dependencies (heap w this)) w"

definition emit :: "nat \<Rightarrow> ref \<Rightarrow> CannoliObjectStatus \<Rightarrow> world \<Rightarrow> outcome" where
  "emit n this s w = emit_update (tryReject n) this s w"

section \<open>CannoliObject: execute and reset\<close>

text \<open>
  \<^verbatim>\<open>run\<close> and \<^verbatim>\<open>mockRun\<close> are overridden by the subclasses, so they are parameters:
  whatever happens to the world while \<^verbatim>\<open>execute\<close> awaits the unit of work, which may
  also throw. The base class bodies are empty.
\<close>

definition base_run :: "ref \<Rightarrow> world \<Rightarrow> outcome" where
  "base_run this w = Returns w"

definition base_mockRun :: "ref \<Rightarrow> world \<Rightarrow> outcome" where
  "base_mockRun this w = Returns w"

definition execute ::
  "nat \<Rightarrow> bool \<Rightarrow> (ref \<Rightarrow> world \<Rightarrow> outcome) \<Rightarrow> (ref \<Rightarrow> world \<Rightarrow> outcome) \<Rightarrow> ref \<Rightarrow> world \<Rightarrow> outcome"
where
  "execute n isMock run mockRun this w =
     then_do (emit n this Executing (set_status this Executing w)) (\<lambda>w1.
     then_do (if isMock then mockRun this (log_event (Invoked this MockRunMethod) w1)
              else run this (log_event (Invoked this RunMethod) w1)) (\<lambda>w2.
     emit n this Complete (set_status this Complete w2)))"

definition reset :: "nat \<Rightarrow> ref \<Rightarrow> world \<Rightarrow> outcome" where
  "reset n this w = emit n this Pending (set_status this Pending w)"

section \<open>CannoliObject: setupListeners\<close>

definition on_update :: "ref \<Rightarrow> listener \<Rightarrow> world \<Rightarrow> world" where
  "on_update r l w =
     w\<lparr>heap := (heap w)(r := (heap w r)\<lparr>listeners := listeners (heap w r) @ [l]\<rparr>)\<rparr>"

fun setup_elements :: "ref \<Rightarrow> string list \<Rightarrow> string list \<Rightarrow> world \<Rightarrow> outcome" where
  "setup_elements this deps [] w = Returns w"
| "setup_elements this deps (element # es) w =
     (case graph_at w element of
        None \<Rightarrow> Throws TypeError w
      | Some r \<Rightarrow>
          setup_elements this deps es (on_update r (AlternativeListener this deps element) w))"

fun setup_loop :: "ref \<Rightarrow> dependency list \<Rightarrow> world \<Rightarrow> outcome" where
  "setup_loop this [] w = Returns w"
| "setup_loop this (Alternatives ds # rest) w =
     then_do (setup_elements this ds ds w) (setup_loop this rest)"
| "setup_loop this (Single d # rest) w =
     (case graph_at w d of
        None \<Rightarrow> Throws TypeError w
      | Some r \<Rightarrow> setup_loop this rest (on_update r (SingleListener this) w))"

definition setupListeners :: "ref \<Rightarrow> world \<Rightarrow> outcome" where
  "setupListeners this w = setup_loop this (dependencies (heap w this)) w"

section \<open>CannoliVertex: setGroups\<close>

text \<open>
  The scan visits the entries of the graph in enumeration order, keeps the instances of
  \<^verbatim>\<open>CannoliVertex\<close> whose canvas data has type \<^verbatim>\<open>"group"\<close> and whose rectangle encloses
  the rectangle of \<^verbatim>\<open>this\<close>, sorts them with the comparator \<^verbatim>\<open>aArea - bArea\<close>
  (\<^verbatim>\<open>Array.prototype.sort\<close> is stable, as is \<open>sort_key\<close>) and stores their \<^verbatim>\<open>id\<close>
  fields.
\<close>

definition object_rectangle :: "CannoliObject \<Rightarrow> rectangle" where
  "object_rectangle obj =
     createRectangle (canvas_x (canvasData obj)) (canvas_y (canvasData obj))
       (canvas_width (canvasData obj)) (canvas_height (canvasData obj))"

definition area :: "CannoliObject \<Rightarrow> int" where
  "area obj = canvas_width (canvasData obj) * canvas_height (canvasData obj)"

definition is_enclosing_group :: "world \<Rightarrow> ref \<Rightarrow> ref \<Rightarrow> bool" where
  "is_enclosing_group w this r \<longleftrightarrow>
     is_vertex (heap w r) \<and> canvas_type (canvasData (heap w r)) = ''group'' \<and>
     encloses (object_rectangle (heap w r)) (object_rectangle (heap w this))"

definition enclosing_groups :: "world \<Rightarrow> ref \<Rightarrow> ref list" where
  "enclosing_groups w this = filter (is_enclosing_group w this) (map snd (graph w))"

definition setGroups :: "ref \<Rightarrow> world \<Rightarrow> world" where
  "setGroups this w =
     (let sorted_groups = sort_key (\<lambda>r. area (heap w r)) (enclosing_groups w this)
      in w\<lparr>heap := (heap w)(this := (heap w this)
              \<lparr>groups := map (\<lambda>r. obj_id (heap w r)) sorted_groups\<rparr>)\<rparr>)"

section \<open>CannoliGraph: hydrateGraph\<close>

text \<open>
  A canvas item is a node or an edge of the canvas data: its \<^verbatim>\<open>id\<close> and the value of
  \<^verbatim>\<open>cannoliData?.type\<close>, which is \<^verbatim>\<open>undefined\<close> (\<open>None\<close>) when the item carries no
  cannoli data. The type tags are the string values of the enums \<^verbatim>\<open>GroupType\<close>,
  \<^verbatim>\<open>ContentNodeType\<close>, \<^verbatim>\<open>CallNodeType\<close> and \<^verbatim>\<open>EdgeType\<close>, compared by \<^verbatim>\<open>switch\<close>.

  The classes instantiated by \<^verbatim>\<open>hydrateGraph\<close> are defined in other files of the
  repository; an entry of the hydrated graph records which class was instantiated from
  which item. \<^verbatim>\<open>this.graph[id] = ...\<close> is the update of the association list (a new
  key is appended, an existing key keeps its place). The closing loop hands the finished
  graph to every object (\<^verbatim>\<open>setGraph\<close>) and changes no entry. \<^verbatim>\<open>console.error\<close>
  appends to \<open>console\<close>.
\<close>

abbreviation GroupType_ForEach :: string where "GroupType_ForEach \<equiv> ''for-each''"
abbreviation GroupType_Repeat :: string where "GroupType_Repeat \<equiv> ''repeat''"
abbreviation GroupType_Basic :: string where "GroupType_Basic \<equiv> ''basic''"
abbreviation ContentNodeType_Input :: string where "ContentNodeType_Input \<equiv> ''input''"
abbreviation ContentNodeType_Display :: string where "ContentNodeType_Display \<equiv> ''display''"
abbreviation ContentNodeType_StaticReference :: string where
  "ContentNodeType_StaticReference \<equiv> ''static-reference''"
abbreviation ContentNodeType_DynamicReference :: string where
  "ContentNodeType_DynamicReference \<equiv> ''dynamic-reference''"
abbreviation ContentNodeType_Formatter :: string where "ContentNodeType_Formatter \<equiv> ''formatter''"
abbreviation CallNodeType_StandardCall :: string where "CallNodeType_StandardCall \<equiv> ''standard-call''"
abbreviation CallNodeType_Select :: string where "CallNodeType_Select \<equiv> ''select''"
abbreviation CallNodeType_Categorize :: string where "CallNodeType_Categorize \<equiv> ''categorize''"
abbreviation CallNodeType_Choose :: string where "CallNodeType_Choose \<equiv> ''choose''"
abbreviation CallNodeType_Distribute :: string where "CallNodeType_Distribute \<equiv> ''distribute''"
abbreviation EdgeType_Logging :: string where "EdgeType_Logging \<equiv> ''logging''"
abbreviation EdgeType_SystemMessage :: string where "EdgeType_SystemMessage \<equiv> ''system-message''"

record canvas_item =
  item_id :: string
  item_type :: "string option"

datatype cannoli_class =
  ForEachGroup | RepeatGroup | CannoliGroup
| InputNode | DisplayNode | ReferenceNode | FormatterNode
| CallNode | ChooseNode | DistributeNode
| LoggingEdge | SystemMessageEdge | CannoliEdge

datatype node_case = Construct cannoli_class | NotImplemented string | UnknownType

definition node_switch :: "string option \<Rightarrow> node_case" where
  "node_switch t =
     (if t = Some GroupType_ForEach then Construct ForEachGroup
      else if t = Some GroupType_Repeat then Construct RepeatGroup
      else if t = Some GroupType_Basic then Construct CannoliGroup
      else if t = Some ContentNodeType_Input then Construct InputNode
      else if t = Some ContentNodeType_Display then Construct DisplayNode
      else if t = Some ContentNodeType_StaticReference then Construct ReferenceNode
      else if t = Some ContentNodeType_DynamicReference
        then NotImplemented ''Dynamic references not yet implemented''
      else if t = Some ContentNodeType_Formatter then Construct FormatterNode
      else if t = Some CallNodeType_StandardCall then Construct CallNode
      else if t = Some CallNodeType_Choose then Construct ChooseNode
      else if t = Some CallNodeType_Distribute then Construct DistributeNode
      else if t = Some CallNodeType_Categorize
        then NotImplemented ''Categorize node not implemented''
      else if t = Some CallNodeType_Select
        then NotImplemented ''Select node not implemented''
      else UnknownType)"

definition edge_switch :: "string option \<Rightarrow> cannoli_class" where
  "edge_switch t =
     (if t = Some EdgeType_Logging then LoggingEdge
      else if t = Some EdgeType_SystemMessage then SystemMessageEdge
      else CannoliEdge)"

record hydration =
  hydrated :: "(string \<times> cannoli_class \<times> canvas_item) list"
  console :: "string list"

datatype hydrate_error = UnknownNodeType "string option"

fun hydrate_nodes :: "canvas_item list \<Rightarrow> hydration \<Rightarrow> hydrate_error + hydration" where
  "hydrate_nodes [] h = Inr h"
| "hydrate_nodes (node # rest) h =
     (case node_switch (item_type node) of
        Construct c \<Rightarrow>
          hydrate_nodes rest (h\<lparr>hydrated := AList.update (item_id node) (c, node) (hydrated h)\<rparr>)
      | NotImplemented msg \<Rightarrow> hydrate_nodes rest (h\<lparr>console := console h @ [msg]\<rparr>)
      | UnknownType \<Rightarrow> Inl (UnknownNodeType (item_type node)))"

fun hydrate_edges :: "canvas_item list \<Rightarrow> hydration \<Rightarrow> hydration" where
  "hydrate_edges [] h = h"
| "hydrate_edges (edge # rest) h =
     hydrate_edges rest
       (h\<lparr>hydrated := AList.update (item_id edge) (edge_switch (item_type edge), edge) (hydrated h)\<rparr>)"

definition hydrateGraph :: "canvas_item list \<Rightarrow> canvas_item list \<Rightarrow> hydrate_error + hydration" where
  "hydrateGraph nodes edges =
     (case hydrate_nodes nodes \<lparr>hydrated = [], console = []\<rparr> of
        Inl e \<Rightarrow> Inl e
      | Inr h \<Rightarrow> Inr (hydrate_edges edges h))"

text \<open>
  The type tags with a \<^verbatim>\<open>case\<close> label in the \<^verbatim>\<open>switch\<close> over the nodes (the recognized
  set), and those among them whose case only logs.
\<close>

definition recognized_node_types :: "string list" where
  "recognized_node_types =
     [''for-each'', ''repeat'', ''basic'', ''input'', ''display'', ''static-reference'',
      ''dynamic-reference'', ''formatter'', ''standard-call'', ''choose'', ''distribute'',
      ''categorize'', ''select'']"

definition unimplemented_node_types :: "string list" where
  "unimplemented_node_types = [''dynamic-reference'', ''categorize'', ''select'']"

definition example_nodes :: "canvas_item list" where
  "example_nodes =
     [\<lparr>item_id = ''n1'', item_type = Some ''input''\<rparr>,
      \<lparr>item_id = ''n2'', item_type = Some ''select''\<rparr>]"

definition example_edges :: "canvas_item list" where
  "example_edges =
     [\<lparr>item_id = ''e1'', item_type = Some ''chat''\<rparr>,
      \<lparr>item_id = ''e2'', item_type = Some ''logging''\<rparr>]"

definition example_hydration :: hydration where
  "example_hydration =
     \<lparr>hydrated =
        [(''n1'', InputNode, \<lparr>item_id = ''n1'', item_type = Some ''input''\<rparr>),
         (''e1'', CannoliEdge, \<lparr>item_id = ''e1'', item_type = Some ''chat''\<rparr>),
         (''e2'', LoggingEdge, \<lparr>item_id = ''e2'', item_type = Some ''logging''\<rparr>)],
      console = [''Select node not implemented'']\<rparr>"

section \<open>Vocabulary of the specification and example graphs\<close>

text \<open>
  The ids that a dependency term refers to: the id itself, or the members of the
  alternative set.
\<close>

fun ids_of :: "dependency \<Rightarrow> string set" where
  "ids_of (Alternatives ds) = set ds"
| "ids_of (Single d) = {d}"

fun thrown :: "outcome \<Rightarrow> error option" where
  "thrown (Returns w) = None"
| "thrown (Throws e w) = Some e"



text \<open>
  A trace is \<open>paired\<close> when it consists of status writes each followed at once by the
  emission of the same object and status, with calls of the unit of work in between;
  \<open>paired_since t t'\<close> says that \<open>t'\<close> continues \<open>t\<close> by a paired trace. A unit of
  work \<open>keeps_pairs\<close> when whatever it appends to the trace is paired.
\<close>

fun paired :: "event list \<Rightarrow> bool" where
  "paired [] = True"
| "paired (StatusWritten r s # Emitted r' s' # rest) = (r' = r \<and> s' = s \<and> paired rest)"
| "paired (Invoked r m # rest) = paired rest"
| "paired _ = False"

definition paired_since :: "event list \<Rightarrow> event list \<Rightarrow> bool" where
  "paired_since t t' \<longleftrightarrow>
     length t \<le> length t' \<and> take (length t) t' = t \<and> paired (drop (length t) t')"

definition keeps_pairs :: "(ref \<Rightarrow> world \<Rightarrow> outcome) \<Rightarrow> bool" where
  "keeps_pairs f \<longleftrightarrow> (\<forall>r w. paired_since (trace w) (trace (world_of (f r w))))"




text \<open>
  Example graphs are built from a list of objects: the object at position \<open>r\<close> of the
  list is stored at reference \<open>r\<close> and entered in the graph under its own id, as
  \<^verbatim>\<open>hydrateGraph\<close> does.
\<close>

definition plain_object :: "string \<Rightarrow> CannoliObjectStatus \<Rightarrow> dependency list \<Rightarrow> CannoliObject" where
  "plain_object i s deps =
     \<lparr>obj_id = i, status = s, dependencies = deps, listeners = [], is_vertex = False,
      canvasData = \<lparr>canvas_x = 0, canvas_y = 0, canvas_width = 0, canvas_height = 0,
                    canvas_type = ''text''\<rparr>,
      groups = []\<rparr>"

definition world_from :: "CannoliObject list \<Rightarrow> world" where
  "world_from objs =
     \<lparr>heap = (\<lambda>r. if r < length objs then objs ! r else plain_object [] Pending []),
      graph = zip (map obj_id objs) [0 ..< length objs],
      trace = []\<rparr>"

definition world_all_complete :: world where
  "world_all_complete = world_from
     [plain_object ''n'' Pending [Single ''a'', Alternatives [''b'', ''c'']],
      plain_object ''a'' Complete [],
      plain_object ''b'' Complete [],
      plain_object ''c'' Complete []]"

definition world_one_alternative_complete :: world where
  "world_one_alternative_complete = world_from
     [plain_object ''n'' Pending [Single ''a'', Alternatives [''b'', ''c'']],
      plain_object ''a'' Complete [],
      plain_object ''b'' Complete [],
      plain_object ''c'' Pending []]"

definition world_second_term_rejected :: world where
  "world_second_term_rejected = world_from
     [plain_object ''n'' Pending [Single ''a'', Single ''b''],
      plain_object ''a'' Complete [],
      plain_object ''b'' Rejected []]"

definition world_chain :: world where
  "world_chain = world_from
     [plain_object ''a'' Pending [],
      plain_object ''b'' Pending [Single ''a''],
      plain_object ''c'' Pending [Single ''b'']]"

definition world_alternatives :: world where
  "world_alternatives = world_from
     [plain_object ''n'' Pending [Alternatives [''a'', ''b'', ''c'']],
      plain_object ''a'' Complete [],
      plain_object ''b'' Pending [],
      plain_object ''c'' Pending []]"

definition world_two_alternatives_complete :: world where
  "world_two_alternatives_complete = world_from
     [plain_object ''n'' Pending [Alternatives [''a'', ''b'', ''c'']],
      plain_object ''a'' Complete [],
      plain_object ''b'' Complete [],
      plain_object ''c'' Pending []]"

definition vertex_object :: "string \<Rightarrow> string \<Rightarrow> int \<Rightarrow> int \<Rightarrow> int \<Rightarrow> int \<Rightarrow> CannoliObject" where
  "vertex_object i ty px py wd ht =
     \<lparr>obj_id = i, status = Pending, dependencies = [], listeners = [], is_vertex = True,
      canvasData = \<lparr>canvas_x = px, canvas_y = py, canvas_width = wd, canvas_height = ht,
                    canvas_type = ty\<rparr>,
      groups = []\<rparr>"

definition world_nested_groups :: world where
  "world_nested_groups = world_from
     [vertex_object ''G2'' ''group'' 0 0 25 20,
      vertex_object ''v'' ''text'' 12 12 5 5,
      plain_object ''e'' Pending [],
      vertex_object ''G1'' ''group'' 10 10 10 10,
      vertex_object ''G3'' ''group'' 100 100 10 10,
      vertex_object ''t'' ''text'' 0 0 50 50]"


definition world_negative_size :: world where
  "world_negative_size = world_from
     [vertex_object ''s'' ''group'' 0 0 (- 5) (- 5),
      vertex_object ''g'' ''group'' 0 0 1 1]"




section \<open>Rectangles: theorems\<close>

text \<open>
  Claim C8. For all rectangles \<open>a\<close> and \<open>b\<close>, \<^verbatim>\<open>overlaps(a, b)\<close> is true if and only if
  the horizontal extents overlap, the vertical extents overlap, and neither rectangle
  encloses the other; and the predicate is symmetric in its two arguments.
\<close>

theorem overlaps_characterisation:
  "(overlaps a b \<longleftrightarrow>
      (rect_x a < x_right b \<and> rect_x b < x_right a \<and>
       rect_y a < y_bottom b \<and> rect_y b < y_bottom a) \<and>
      \<not> encloses a b \<and> \<not> encloses b a) \<and>
   overlaps a b = overlaps b a"
  by (auto simp: overlaps_def horizontalOverlap_def verticalOverlap_def)

theorem overlaps_characterisation_witness:
  "overlaps (createRectangle 0 0 10 10) (createRectangle 5 5 10 10) \<and>
   overlaps (createRectangle 5 5 10 10) (createRectangle 0 0 10 10) \<and>
   \<not> encloses (createRectangle 0 0 10 10) (createRectangle 5 5 10 10) \<and>
   \<not> encloses (createRectangle 5 5 10 10) (createRectangle 0 0 10 10)"
proof -
  let ?a = "createRectangle 0 0 10 10" and ?b = "createRectangle 5 5 10 10"
  have "(rect_x ?a < x_right ?b \<and> rect_x ?b < x_right ?a \<and>
         rect_y ?a < y_bottom ?b \<and> rect_y ?b < y_bottom ?a) \<and>
        \<not> encloses ?a ?b \<and> \<not> encloses ?b ?a"
    by (simp add: encloses_def createRectangle_def)
  with overlaps_characterisation [of ?a ?b] show ?thesis by blast
qed

lemma nested_rectangles_do_not_overlap:
  "\<not> overlaps (createRectangle 0 0 10 10) (createRectangle 2 2 3 3)"
  by (simp add: overlaps_def encloses_def createRectangle_def)

section \<open>addDependency: theorems\<close>

lemma isDependency_iff:
  "isDependency w this d \<longleftrightarrow>
     (\<exists>p \<in> set (dependencies (heap w this)). ids_of d \<inter> ids_of p \<noteq> {})"
proof -
  have inc: "term_includes p i \<longleftrightarrow> i \<in> ids_of p" for p i
    by (cases p) auto
  have pot: "set (potentialDependencies d) = ids_of d"
    by (cases d) auto
  show ?thesis
    unfolding isDependency_def list_ex_iff inc pot by blast
qed

text \<open>
  Claim C4. \<^verbatim>\<open>addDependency(term)\<close> raises the DuplicateAlternativeError if and only if
  some id of the term (the term itself when it is a single id, any member when it is an
  alternative set) already appears in a dependency term added before, as a single id or
  as a member of an alternative set; a raise leaves the object as it was; otherwise the
  term is appended unchanged at the end of the dependency sequence. In particular a
  second alternative set that shares a member with one added before makes the second
  call raise.
\<close>

theorem addDependency_raises_iff_duplicate:
  "(thrown (addDependency this d w) = Some DuplicateAlternativeError \<longleftrightarrow>
      (\<exists>p \<in> set (dependencies (heap w this)). ids_of d \<inter> ids_of p \<noteq> {})) \<and>
   (thrown (addDependency this d w) \<noteq> None \<longrightarrow>
      addDependency this d w = Throws DuplicateAlternativeError w) \<and>
   (thrown (addDependency this d w) = None \<longrightarrow>
      addDependency this d w =
        Returns (w\<lparr>heap := (heap w)(this := (heap w this)
                   \<lparr>dependencies := dependencies (heap w this) @ [d]\<rparr>)\<rparr>)) \<and>
   (addDependency this (Alternatives xs) w = Returns w1 \<and> set xs \<inter> set ys \<noteq> {} \<longrightarrow>
      addDependency this (Alternatives ys) w1 = Throws DuplicateAlternativeError w1)"
proof -
  have two_calls: "addDependency this (Alternatives ys) w1 = Throws DuplicateAlternativeError w1"
    if first: "addDependency this (Alternatives xs) w = Returns w1"
      and shared: "set xs \<inter> set ys \<noteq> {}"
  proof -
    from first have "Alternatives xs \<in> set (dependencies (heap w1 this))"
      by (auto simp: addDependency_def split: if_splits)
    with shared have "isDependency w1 this (Alternatives ys)"
      unfolding isDependency_iff by (intro bexI[of _ "Alternatives xs"]) auto
    then show ?thesis by (simp add: addDependency_def)
  qed
  show ?thesis
    using two_calls by (simp add: addDependency_def isDependency_iff)
qed

theorem addDependency_raises_iff_duplicate_witness:
  "thrown (addDependency 0 (Alternatives [''c'', ''d'']) world_all_complete)
     = Some DuplicateAlternativeError \<and>
   (\<exists>p \<in> set (dependencies (heap world_all_complete 0)).
      ids_of (Alternatives [''c'', ''d'']) \<inter> ids_of p \<noteq> {}) \<and>
   addDependency 0 (Alternatives [''c'', ''d'']) world_all_complete
     = Throws DuplicateAlternativeError world_all_complete \<and>
   thrown (addDependency 0 (Single ''d'') world_all_complete) = None \<and>
   dependencies (heap (world_of (addDependency 0 (Single ''d'') world_all_complete)) 0)
     = [Single ''a'', Alternatives [''b'', ''c''], Single ''d'']"
proof -
  have dup: "\<exists>p \<in> set (dependencies (heap world_all_complete 0)).
               ids_of (Alternatives [''c'', ''d'']) \<inter> ids_of p \<noteq> {}"
    by (simp add: world_all_complete_def world_from_def plain_object_def)
  have fresh: "\<not> (\<exists>p \<in> set (dependencies (heap world_all_complete 0)).
               ids_of (Single ''d'') \<inter> ids_of p \<noteq> {})"
    by (simp add: world_all_complete_def world_from_def plain_object_def)
  from dup addDependency_raises_iff_duplicate
         [of 0 "Alternatives [''c'', ''d'']" world_all_complete]
  have raised: "thrown (addDependency 0 (Alternatives [''c'', ''d'']) world_all_complete)
                  = Some DuplicateAlternativeError"
    and same: "addDependency 0 (Alternatives [''c'', ''d'']) world_all_complete
                  = Throws DuplicateAlternativeError world_all_complete"
    by simp_all
  from fresh addDependency_raises_iff_duplicate [of 0 "Single ''d''" world_all_complete]
  have quiet: "thrown (addDependency 0 (Single ''d'') world_all_complete) = None"
    by (cases "addDependency 0 (Single ''d'') world_all_complete") auto
  with addDependency_raises_iff_duplicate [of 0 "Single ''d''" world_all_complete]
  have "addDependency 0 (Single ''d'') world_all_complete =
          Returns (world_all_complete\<lparr>heap := (heap world_all_complete)
            (0 := (heap world_all_complete 0)
               \<lparr>dependencies := dependencies (heap world_all_complete 0) @ [Single ''d'']\<rparr>)\<rparr>)"
    by blast
  then have appended:
    "dependencies (heap (world_of (addDependency 0 (Single ''d'') world_all_complete)) 0)
       = [Single ''a'', Alternatives [''b'', ''c''], Single ''d'']"
    by (simp add: world_all_complete_def world_from_def plain_object_def)
  from raised dup same quiet appended show ?thesis by blast
qed

section \<open>allDependenciesComplete: theorems\<close>

lemma some_not_complete_False:
  "some_not_complete w ds = Inr False \<longleftrightarrow>
     (\<forall>i \<in> set ds. \<exists>r. graph_at w i = Some r \<and> status (heap w r) = Complete)"
  by (induction ds) (auto split: option.splits)

lemma allComplete_loop_True:
  "allComplete_loop w deps = Inr True \<longleftrightarrow>
     (\<forall>p \<in> set deps. \<forall>i \<in> ids_of p.
        \<exists>r. graph_at w i = Some r \<and> status (heap w r) = Complete)"
proof (induction w deps rule: allComplete_loop.induct)
  case (1 w)
  then show ?case by simp
next
  case (2 w ds rest)
  let ?A = "\<forall>i \<in> set ds. \<exists>r. graph_at w i = Some r \<and> status (heap w r) = Complete"
  have key: "some_not_complete w ds = Inr False \<longleftrightarrow> ?A"
    by (rule some_not_complete_False)
  show ?case
  proof (cases "some_not_complete w ds")
    case (Inl e)
    with key have "\<not> ?A" by simp
    with Inl show ?thesis by simp
  next
    case (Inr b)
    show ?thesis
    proof (cases b)
      case True
      with Inr key have "\<not> ?A" by simp
      with Inr True show ?thesis by simp
    next
      case False
      with Inr key have a: "?A" by simp
      from 2(1)[OF Inr False] a Inr False show ?thesis by simp
    qed
  qed
next
  case (3 w d rest)
  then show ?case by (auto split: option.splits)
qed

text \<open>
  Claim C2. \<^verbatim>\<open>allDependenciesComplete()\<close> returns true if and only if every id
  referenced by every dependency term, every member of each alternative set included,
  has an object of status Complete.
\<close>

theorem allDependenciesComplete_iff_every_id_complete:
  "allDependenciesComplete w this = Inr True \<longleftrightarrow>
     (\<forall>p \<in> set (dependencies (heap w this)). \<forall>i \<in> ids_of p.
        \<exists>r. graph_at w i = Some r \<and> status (heap w r) = Complete)"
  unfolding allDependenciesComplete_def by (rule allComplete_loop_True)

theorem allDependenciesComplete_iff_every_id_complete_witness:
  "allDependenciesComplete world_all_complete 0 = Inr True \<and>
   dependencies (heap world_all_complete 0) = [Single ''a'', Alternatives [''b'', ''c'']] \<and>
   map (\<lambda>i. map_option (\<lambda>r. status (heap world_all_complete r)) (graph_at world_all_complete i))
     [''a'', ''b'', ''c''] = [Some Complete, Some Complete, Some Complete]"
proof -
  have every: "\<forall>p \<in> set (dependencies (heap world_all_complete 0)). \<forall>i \<in> ids_of p.
      \<exists>r. graph_at world_all_complete i = Some r \<and>
          status (heap world_all_complete r) = Complete"
    by (simp add: world_all_complete_def world_from_def plain_object_def graph_at_def upt_rec)
  with allDependenciesComplete_iff_every_id_complete [of world_all_complete 0]
  have "allDependenciesComplete world_all_complete 0 = Inr True" by blast
  then show ?thesis
    by (simp add: world_all_complete_def world_from_def plain_object_def graph_at_def upt_rec)
qed

lemma allDependenciesComplete_one_member_is_not_enough:
  "allDependenciesComplete world_one_alternative_complete 0 = Inr False"
  by (simp add: allDependenciesComplete_def world_one_alternative_complete_def
        world_from_def plain_object_def graph_at_def upt_rec)

section \<open>Evaluating the example graphs\<close>

lemmas ex_defs = world_from_def plain_object_def graph_at_def upt_rec
  set_status_def log_event_def emit_def emit_update_def dependencyUpdated_def
  dependencyCompleted_def dependencyRejected_def on_update_def

section \<open>tryReject: where the scan stops\<close>

lemma tryReject_stops_at_first_unrejected_term:
  "dependencies (heap w this) = d # ds \<Longrightarrow> fully_rejected w d = Inr False \<Longrightarrow>
   tryReject (Suc n) this w = Returns w"
  by simp

text \<open>
  Claim C1 says that \<^verbatim>\<open>tryReject\<close> rejects the object and emits Rejected whenever some
  dependency term is fully rejected, at whatever position. The code departs from it:
  the object \<open>n\<close> depends on \<open>a\<close> and on \<open>b\<close>, in this order; \<open>a\<close> is Complete and
  \<open>b\<close> is Rejected, so the second dependency term is fully rejected. \<^verbatim>\<open>tryReject\<close>
  returns with the world unchanged: the status of \<open>n\<close> is still Pending and no event
  has been emitted.
\<close>

theorem tryReject_misses_later_rejected_term:
  "dependencies (heap world_second_term_rejected 0) = [Single ''a'', Single ''b''] \<and>
   fully_rejected world_second_term_rejected (Single ''b'') = Inr True \<and>
   tryReject 2 0 world_second_term_rejected = Returns world_second_term_rejected \<and>
   status (heap world_second_term_rejected 0) = Pending \<and>
   trace world_second_term_rejected = []"
  by (simp add: world_second_term_rejected_def ex_defs numeral_2_eq_2)

text \<open>
  Along a chain of single dependencies the first term is the only term, and there
  rejection does propagate: \<open>b\<close> depends on \<open>a\<close>, \<open>c\<close> on \<open>b\<close>, and the rejection of
  \<open>a\<close> rejects \<open>b\<close> and \<open>c\<close> through the listeners.
\<close>

lemma rejection_propagates_along_chain:
  "(case then_do (setupListeners 1 world_chain) (setupListeners 2) of
      Returns w \<Rightarrow>
        (let w' = world_of (emit 2 0 Rejected (set_status 0 Rejected w))
         in (map (\<lambda>r. status (heap w' r)) [0, 1, 2], trace w'))
    | Throws e w \<Rightarrow> ([], [])) =
   ([Rejected, Rejected, Rejected],
    [StatusWritten 0 Rejected, Emitted 0 Rejected,
     StatusWritten 1 Rejected, Emitted 1 Rejected,
     StatusWritten 2 Rejected, Emitted 2 Rejected])"
  by (simp add: world_chain_def setupListeners_def ex_defs numeral_2_eq_2)

section \<open>execute: the sequence of steps\<close>

lemma listeners_ignore_status:
  "s \<noteq> Complete \<Longrightarrow> s \<noteq> Rejected \<Longrightarrow> call_listeners tr ls s w = Returns w"
proof (induction ls)
  case Nil
  then show ?case by simp
next
  case (Cons l ls)
  then show ?case by (cases l; cases s) (simp_all add: dependencyUpdated_def)
qed

lemma listeners_of_Complete:
  "world_of (call_listeners tr ls Complete w) = w \<and>
   (thrown (call_listeners tr ls Complete w) = None \<longrightarrow>
      call_listeners tr ls Complete w = Returns w)"
proof (induction ls)
  case Nil
  then show ?case by simp
next
  case (Cons l ls)
  have "call_listener tr l Complete w = Returns w \<or> (\<exists>e. call_listener tr l Complete w = Throws e w)"
    by (cases l) (auto simp: dependencyUpdated_def dependencyCompleted_def split: sum.splits)
  with Cons show ?case by auto
qed

text \<open>
  Claim C5. \<^verbatim>\<open>execute(run)\<close> writes the status Executing and emits it (no listener
  reacts to that status), then calls \<^verbatim>\<open>mockRun()\<close> when \<^verbatim>\<open>run.isMock\<close> is true and
  \<^verbatim>\<open>run()\<close> otherwise; if the unit of work throws, so does \<^verbatim>\<open>execute\<close>, at once; if
  it returns, \<^verbatim>\<open>execute\<close> writes the status Complete and emits it, and nothing else
  changes. Under a mock run the result does not depend on \<^verbatim>\<open>run\<close>, and under a real
  run it does not depend on \<^verbatim>\<open>mockRun\<close>: the other unit of work is never invoked.
\<close>

theorem execute_sequence:
  "(let m = (if isMock then MockRunMethod else RunMethod);
        work = (if isMock then mockRun else run);
        w1 = log_event (Invoked this m)
               (log_event (Emitted this Executing) (set_status this Executing w))
    in (work this w1 = Throws e w' \<longrightarrow>
          execute n isMock run mockRun this w = Throws e w') \<and>
       (work this w1 = Returns w2 \<longrightarrow>
          world_of (execute n isMock run mockRun this w)
            = log_event (Emitted this Complete) (set_status this Complete w2))) \<and>
   execute n True run mockRun this w = execute n True run' mockRun this w \<and>
   execute n False run mockRun this w = execute n False run mockRun' this w"
proof -
  have first: "emit n this Executing (set_status this Executing w)
                 = Returns (log_event (Emitted this Executing) (set_status this Executing w))"
    by (simp add: emit_def emit_update_def listeners_ignore_status)
  have last: "world_of (emit n this Complete v) = log_event (Emitted this Complete) v" for v
    by (simp add: emit_def emit_update_def listeners_of_Complete)
  show ?thesis
    unfolding execute_def first Let_def
    by (cases isMock) (simp_all add: last)
qed

theorem execute_sequence_witness:
  "trace (world_of (execute 1 True base_run base_mockRun 1 world_chain))
     = [StatusWritten 1 Executing, Emitted 1 Executing, Invoked 1 MockRunMethod,
        StatusWritten 1 Complete, Emitted 1 Complete] \<and>
   status (heap (world_of (execute 1 True base_run base_mockRun 1 world_chain)) 1) = Complete \<and>
   trace (world_of (execute 1 False base_run base_mockRun 1 world_chain))
     = [StatusWritten 1 Executing, Emitted 1 Executing, Invoked 1 RunMethod,
        StatusWritten 1 Complete, Emitted 1 Complete]"
proof -
  let ?w1 = "\<lambda>m. log_event (Invoked 1 m)
               (log_event (Emitted 1 Executing) (set_status 1 Executing world_chain))"
  have mock: "base_mockRun 1 (?w1 MockRunMethod) = Returns (?w1 MockRunMethod)"
    and real: "base_run 1 (?w1 RunMethod) = Returns (?w1 RunMethod)"
    by (simp_all add: base_mockRun_def base_run_def)
  from execute_sequence [of True base_mockRun base_run 1 world_chain _ _ _ "?w1 MockRunMethod"] mock
  have a: "world_of (execute 1 True base_run base_mockRun 1 world_chain)
             = log_event (Emitted 1 Complete) (set_status 1 Complete (?w1 MockRunMethod))"
    by (simp add: Let_def)
  from execute_sequence [of False base_mockRun base_run 1 world_chain _ _ _ "?w1 RunMethod"] real
  have b: "world_of (execute 1 False base_run base_mockRun 1 world_chain)
             = log_event (Emitted 1 Complete) (set_status 1 Complete (?w1 RunMethod))"
    by (simp add: Let_def)
  show ?thesis unfolding a b by (simp add: world_chain_def ex_defs)
qed

section \<open>The listener of an alternative set\<close>



lemma second_alternative_completing_raises:
  "(case setupListeners 0 world_alternatives of
      Returns w \<Rightarrow> thrown (execute 1 False base_run base_mockRun 2 w)
    | Throws e w \<Rightarrow> None) = Some ConflictingAlternativesError"
  by (simp add: world_alternatives_def setupListeners_def execute_def base_run_def ex_defs)



























section \<open>Status writes and their events\<close>

lemma paired_append: "paired xs \<Longrightarrow> paired ys \<Longrightarrow> paired (xs @ ys)"
  by (induction xs rule: paired.induct) auto

lemma paired_since_iff: "paired_since t t' \<longleftrightarrow> (\<exists>ext. t' = t @ ext \<and> paired ext)"
proof
  assume "paired_since t t'"
  then have "t' = t @ drop (length t) t' \<and> paired (drop (length t) t')"
    unfolding paired_since_def by (metis append_take_drop_id)
  then show "\<exists>ext. t' = t @ ext \<and> paired ext" by blast
next
  assume "\<exists>ext. t' = t @ ext \<and> paired ext"
  then show "paired_since t t'" unfolding paired_since_def by auto
qed

lemma paired_since_refl: "paired_since t t"
  by (simp add: paired_since_def)

lemma paired_since_trans:
  "paired_since t t' \<Longrightarrow> paired_since t' t'' \<Longrightarrow> paired_since t t''"
  unfolding paired_since_iff by (auto intro: paired_append)

lemma paired_since_write_emit:
  "paired_since (t @ [StatusWritten r s, Emitted r s]) t' \<Longrightarrow> paired_since t t'"
  unfolding paired_since_iff
proof -
  assume "\<exists>ext. t' = (t @ [StatusWritten r s, Emitted r s]) @ ext \<and> paired ext"
  then obtain ext where "t' = t @ ([StatusWritten r s, Emitted r s] @ ext)" "paired ext" by auto
  moreover have "paired ([StatusWritten r s, Emitted r s] @ ext)" using \<open>paired ext\<close> by simp
  ultimately show "\<exists>ext. t' = t @ ext \<and> paired ext" by blast
qed

lemma world_of_then_do:
  "world_of (then_do x f) = (case x of Returns w \<Rightarrow> world_of (f w) | Throws e w \<Rightarrow> w)"
  by (cases x) auto

lemma then_do_pairs:
  assumes "paired_since t (trace (world_of x))"
    and "\<And>w. x = Returns w \<Longrightarrow> paired_since (trace w) (trace (world_of (f w)))"
  shows "paired_since t (trace (world_of (then_do x f)))"
  using assms by (cases x) (auto intro: paired_since_trans)

lemma dependencyUpdated_pairs:
  "keeps_pairs tr \<Longrightarrow> paired_since (trace w) (trace (world_of (dependencyUpdated tr this s w)))"
  by (cases s) (auto simp: dependencyUpdated_def dependencyCompleted_def dependencyRejected_def
      keeps_pairs_def paired_since_refl)

lemma call_listener_pairs:
  "keeps_pairs tr \<Longrightarrow> paired_since (trace w) (trace (world_of (call_listener tr l s w)))"
  by (cases l) (auto simp: dependencyUpdated_pairs paired_since_refl split: sum.splits)

lemma call_listeners_pairs:
  "keeps_pairs tr \<Longrightarrow> paired_since (trace w) (trace (world_of (call_listeners tr ls s w)))"
proof (induction ls arbitrary: w)
  case Nil
  then show ?case by (simp add: paired_since_refl)
next
  case (Cons l ls)
  show ?case
    unfolding call_listeners.simps
    by (rule then_do_pairs) (auto intro: call_listener_pairs Cons)
qed

lemma write_then_emit_pairs:
  assumes "keeps_pairs tr"
  shows "paired_since (trace w) (trace (world_of (emit_update tr r s (set_status r s w))))"
proof -
  let ?w = "log_event (Emitted r s) (set_status r s w)"
  have t: "trace ?w = trace w @ [StatusWritten r s, Emitted r s]"
    by (simp add: log_event_def set_status_def)
  have l: "listeners (heap (set_status r s w) r) = listeners (heap w r)"
    by (simp add: log_event_def set_status_def)
  have "paired_since (trace ?w) (trace (world_of (call_listeners tr (listeners (heap w r)) s ?w)))"
    by (rule call_listeners_pairs [OF assms])
  then have "paired_since (trace w) (trace (world_of (call_listeners tr (listeners (heap w r)) s ?w)))"
    unfolding t by (rule paired_since_write_emit)
  then show ?thesis by (simp add: emit_update_def l)
qed

lemma tryReject_every_pairs:
  assumes "keeps_pairs tr"
  shows "paired_since (trace w)
           (trace (world_of (tryReject_every (emit_update tr) this ds w)))"
proof (induction ds arbitrary: w)
  case Nil
  then show ?case by (simp add: paired_since_refl)
next
  case (Cons d ds)
  show ?case
  proof (cases "fully_rejected w d")
    case (Inl e)
    then show ?thesis by (simp add: paired_since_refl)
  next
    case (Inr b)
    show ?thesis
    proof (cases b)
      case False
      with Inr show ?thesis by (simp add: paired_since_refl)
    next
      case True
      have "paired_since (trace w)
              (trace (world_of (then_do (emit_update tr this Rejected (set_status this Rejected w))
                                  (tryReject_every (emit_update tr) this ds))))"
        by (rule then_do_pairs) (auto intro: write_then_emit_pairs [OF assms] Cons)
      with Inr True show ?thesis by simp
    qed
  qed
qed

lemma tryReject_keeps_pairs: "keeps_pairs (tryReject n)"
proof (induction n)
  case 0
  show ?case by (simp add: keeps_pairs_def paired_since_refl)
next
  case (Suc n)
  show ?case
    unfolding keeps_pairs_def tryReject.simps
    by (intro allI tryReject_every_pairs Suc)
qed

text \<open>
  Claim C7. Every status write performed by \<^verbatim>\<open>execute\<close>, \<^verbatim>\<open>tryReject\<close> and \<^verbatim>\<open>reset\<close>
  (and by the listeners they trigger) is followed at once by the emission of one
  \<^verbatim>\<open>"update"\<close> event of the same object with the status just written, and no event is
  emitted otherwise: what each method appends to the trace is paired, whenever the units
  of work that \<^verbatim>\<open>execute\<close> awaits append paired traces themselves. This holds also when
  the method throws.
\<close>

theorem status_writes_are_paired_with_events:
  assumes "keeps_pairs run" and "keeps_pairs mockRun"
  shows "paired_since (trace w) (trace (world_of (execute n isMock run mockRun this w))) \<and>
         paired_since (trace w) (trace (world_of (tryReject n this w))) \<and>
         paired_since (trace w) (trace (world_of (reset n this w)))"
proof -
  have em: "paired_since (trace v) (trace (world_of (emit n r s (set_status r s v))))" for r s v
    unfolding emit_def by (rule write_then_emit_pairs [OF tryReject_keeps_pairs])
  have body: "paired_since (trace v)
      (trace (world_of (if isMock then mockRun this (log_event (Invoked this MockRunMethod) v)
                        else run this (log_event (Invoked this RunMethod) v))))" for v
  proof -
    have inv: "paired_since (trace v) (trace (log_event (Invoked this m) v))" for m
      by (simp add: paired_since_def log_event_def)
    show ?thesis
      using assms inv paired_since_trans unfolding keeps_pairs_def by (cases isMock) fastforce+
  qed
  have "paired_since (trace w) (trace (world_of (execute n isMock run mockRun this w)))"
    unfolding execute_def
    by (intro then_do_pairs em body)
  moreover have "paired_since (trace w) (trace (world_of (tryReject n this w)))"
    using tryReject_keeps_pairs unfolding keeps_pairs_def by blast
  moreover have "paired_since (trace w) (trace (world_of (reset n this w)))"
    unfolding reset_def by (rule em)
  ultimately show ?thesis by blast
qed

theorem status_writes_are_paired_with_events_witness:
  "paired_since (trace world_chain)
     (trace (world_of (execute 1 False base_run base_mockRun 1 world_chain))) \<and>
   paired_since (trace world_second_term_rejected)
     (trace (world_of (tryReject 2 0 world_second_term_rejected))) \<and>
   paired_since (trace world_chain) (trace (world_of (reset 1 0 world_chain)))"
proof -
  have "keeps_pairs base_run" "keeps_pairs base_mockRun"
    by (simp_all add: keeps_pairs_def base_run_def base_mockRun_def paired_since_refl)
  from status_writes_are_paired_with_events [OF this] show ?thesis by blast
qed


text \<open>
  When the first dependency term is fully rejected, \<^verbatim>\<open>tryReject\<close> does write the status
  Rejected and emit it, before anything else.
\<close>

lemma tryReject_rejects_on_first_term:
  assumes "dependencies (heap w this) = d # ds" and "fully_rejected w d = Inr True"
  shows "\<exists>ext. trace (world_of (tryReject (Suc n) this w))
               = trace w @ StatusWritten this Rejected # Emitted this Rejected # ext"
proof -
  let ?em = "emit_update (tryReject n)"
  let ?v = "log_event (Emitted this Rejected) (set_status this Rejected w)"
  let ?x = "?em this Rejected (set_status this Rejected w)"
  have tv: "trace ?v = trace w @ [StatusWritten this Rejected, Emitted this Rejected]"
    by (simp add: log_event_def set_status_def)
  have x: "?x = call_listeners (tryReject n) (listeners (heap w this)) Rejected ?v"
    by (simp add: emit_update_def set_status_def log_event_def)
  have "paired_since (trace ?v) (trace (world_of ?x))"
    unfolding x by (rule call_listeners_pairs [OF tryReject_keeps_pairs])
  then have "paired_since (trace ?v)
               (trace (world_of (then_do ?x (tryReject_every ?em this ds))))"
    by (rule then_do_pairs) (rule tryReject_every_pairs [OF tryReject_keeps_pairs])
  then obtain ext where
    "trace (world_of (then_do ?x (tryReject_every ?em this ds))) = trace ?v @ ext"
    unfolding paired_since_iff by blast
  with assms show ?thesis by (simp add: tv)
qed

section \<open>setGroups: theorems\<close>

lemmas geo_defs = world_from_def plain_object_def vertex_object_def upt_rec
  setGroups_def enclosing_groups_def is_enclosing_group_def object_rectangle_def
  createRectangle_def encloses_def area_def

lemma encloses_object_rectangle:
  "encloses (object_rectangle g) (object_rectangle v) \<longleftrightarrow>
     canvas_x (canvasData g) \<le> canvas_x (canvasData v) \<and>
     canvas_y (canvasData g) \<le> canvas_y (canvasData v) \<and>
     canvas_x (canvasData g) + canvas_width (canvasData g)
       \<ge> canvas_x (canvasData v) + canvas_width (canvasData v) \<and>
     canvas_y (canvasData g) + canvas_height (canvasData g)
       \<ge> canvas_y (canvasData v) + canvas_height (canvasData v)"
  by (simp add: encloses_def object_rectangle_def createRectangle_def)

lemma groups_of_setGroups:
  "groups (heap (setGroups this w) this)
     = map (\<lambda>r. obj_id (heap w r)) (sort_key (\<lambda>r. area (heap w r)) (enclosing_groups w this))"
  by (simp add: setGroups_def)

text \<open>
  Claim C6. \<^verbatim>\<open>setGroups()\<close> sets the \<open>groups\<close> field of the vertex to the ids of
  exactly the group objects of the graph whose rectangle encloses the rectangle of the
  vertex (the same objects, as often as the scan of the graph finds them), in ascending
  order of area; enclosing is inclusive on all four edges; and when the enclosing groups
  are G1 of area 100 and G2 of area 500, in either order of the graph, the result is
  [G1, G2].
\<close>

theorem setGroups_lists_enclosing_groups_by_area:
  "(\<exists>rs. groups (heap (setGroups this w) this) = map (\<lambda>r. obj_id (heap w r)) rs \<and>
         mset rs = mset (filter (\<lambda>r. is_vertex (heap w r) \<and>
                                     canvas_type (canvasData (heap w r)) = ''group'' \<and>
                                     encloses (object_rectangle (heap w r))
                                              (object_rectangle (heap w this)))
                          (map snd (graph w))) \<and>
         sorted (map (\<lambda>r. area (heap w r)) rs)) \<and>
   (encloses (object_rectangle g) (object_rectangle v) \<longleftrightarrow>
      canvas_x (canvasData g) \<le> canvas_x (canvasData v) \<and>
      canvas_y (canvasData g) \<le> canvas_y (canvasData v) \<and>
      canvas_x (canvasData g) + canvas_width (canvasData g)
        \<ge> canvas_x (canvasData v) + canvas_width (canvasData v) \<and>
      canvas_y (canvasData g) + canvas_height (canvasData g)
        \<ge> canvas_y (canvasData v) + canvas_height (canvasData v)) \<and>
   ((enclosing_groups w this = [g1, g2] \<or> enclosing_groups w this = [g2, g1]) \<and>
    area (heap w g1) = 100 \<and> area (heap w g2) = 500 \<longrightarrow>
      groups (heap (setGroups this w) this) = [obj_id (heap w g1), obj_id (heap w g2)])"
proof -
  let ?rs = "sort_key (\<lambda>r. area (heap w r)) (enclosing_groups w this)"
  have "groups (heap (setGroups this w) this) = map (\<lambda>r. obj_id (heap w r)) ?rs"
    by (rule groups_of_setGroups)
  moreover have "mset ?rs = mset (filter (\<lambda>r. is_vertex (heap w r) \<and>
                                     canvas_type (canvasData (heap w r)) = ''group'' \<and>
                                     encloses (object_rectangle (heap w r))
                                              (object_rectangle (heap w this)))
                          (map snd (graph w)))"
    by (simp add: enclosing_groups_def is_enclosing_group_def [abs_def])
  moreover have "sorted (map (\<lambda>r. area (heap w r)) ?rs)"
    by (rule sorted_sort_key)
  ultimately have first: "\<exists>rs. groups (heap (setGroups this w) this) = map (\<lambda>r. obj_id (heap w r)) rs \<and>
         mset rs = mset (filter (\<lambda>r. is_vertex (heap w r) \<and>
                                     canvas_type (canvasData (heap w r)) = ''group'' \<and>
                                     encloses (object_rectangle (heap w r))
                                              (object_rectangle (heap w this)))
                          (map snd (graph w))) \<and>
         sorted (map (\<lambda>r. area (heap w r)) rs)"
    by blast
  have example: "groups (heap (setGroups this w) this) = [obj_id (heap w g1), obj_id (heap w g2)]"
    if "enclosing_groups w this = [g1, g2] \<or> enclosing_groups w this = [g2, g1]"
      and "area (heap w g1) = 100" and "area (heap w g2) = 500"
    using that by (auto simp: groups_of_setGroups)
  from first encloses_object_rectangle [of g v] example show ?thesis by blast
qed

theorem setGroups_lists_enclosing_groups_by_area_witness:
  "enclosing_groups world_nested_groups 1 = [0, 3] \<and>
   area (heap world_nested_groups 3) = 100 \<and>
   area (heap world_nested_groups 0) = 500 \<and>
   groups (heap (setGroups 1 world_nested_groups) 1) = [''G1'', ''G2'']"
proof -
  have found: "enclosing_groups world_nested_groups 1 = [0, 3]"
    by (simp add: world_nested_groups_def geo_defs)
  have a1: "area (heap world_nested_groups 3) = 100"
    and a2: "area (heap world_nested_groups 0) = 500"
    by (simp_all add: world_nested_groups_def geo_defs)
  have ids: "obj_id (heap world_nested_groups 3) = ''G1''"
    "obj_id (heap world_nested_groups 0) = ''G2''"
    by (simp_all add: world_nested_groups_def geo_defs)
  from found a1 a2
  have "(enclosing_groups world_nested_groups 1 = [3, 0] \<or>
         enclosing_groups world_nested_groups 1 = [0, 3]) \<and>
        area (heap world_nested_groups 3) = 100 \<and> area (heap world_nested_groups 0) = 500"
    by blast
  with setGroups_lists_enclosing_groups_by_area [of 1 world_nested_groups _ _ 3 0]
  have "groups (heap (setGroups 1 world_nested_groups) 1)
          = [obj_id (heap world_nested_groups 3), obj_id (heap world_nested_groups 0)]"
    by blast
  with found a1 a2 ids show ?thesis by simp
qed






text \<open>
  The bound on the sizes is needed: a group of negative width and height is enclosed by
  a group of smaller area.
\<close>

lemma negative_size_group_is_not_smallest:
  "groups (heap (setGroups 0 world_negative_size) 0) = [''g'', ''s''] \<and>
   area (heap world_negative_size 1) < area (heap world_negative_size 0)"
  by (simp add: world_negative_size_def geo_defs)

section \<open>hydrateGraph: theorems\<close>

lemma node_switch_unknown_iff:
  "node_switch t = UnknownType \<longleftrightarrow> t \<notin> Some ` set recognized_node_types"
  by (auto simp: node_switch_def recognized_node_types_def)

lemma node_switch_unimplemented_iff:
  "(\<exists>msg. node_switch t = NotImplemented msg) \<longleftrightarrow> t \<in> Some ` set unimplemented_node_types"
  by (auto simp: node_switch_def unimplemented_node_types_def)

lemma hydrate_nodes_fails_iff:
  "(\<exists>e. hydrate_nodes ns h = Inl e) \<longleftrightarrow> (\<exists>n \<in> set ns. node_switch (item_type n) = UnknownType)"
  by (induction ns arbitrary: h) (auto split: node_case.splits)

lemma hydrate_nodes_error:
  "hydrate_nodes ns h = Inl e \<Longrightarrow>
   \<exists>n \<in> set ns. node_switch (item_type n) = UnknownType \<and> e = UnknownNodeType (item_type n)"
  by (induction ns arbitrary: h) (auto split: node_case.splits)

lemma hydrate_nodes_keys:
  "hydrate_nodes ns h = Inr h' \<Longrightarrow>
   fst ` set (hydrated h') =
     fst ` set (hydrated h) \<union> {item_id n | n. n \<in> set ns \<and> (\<exists>c. node_switch (item_type n) = Construct c)}"
proof (induction ns arbitrary: h)
  case Nil
  then show ?case by simp
next
  case (Cons n ns)
  show ?case
  proof (cases "node_switch (item_type n)")
    case (Construct c)
    with Cons.prems have "hydrate_nodes ns (h\<lparr>hydrated := AList.update (item_id n) (c, n) (hydrated h)\<rparr>) = Inr h'"
      by simp
    from Cons.IH [OF this] Construct show ?thesis
      by (auto simp: dom_update)
  next
    case (NotImplemented msg)
    with Cons.prems have "hydrate_nodes ns (h\<lparr>console := console h @ [msg]\<rparr>) = Inr h'" by simp
    from Cons.IH [OF this] NotImplemented show ?thesis by auto
  next
    case UnknownType
    with Cons.prems show ?thesis by simp
  qed
qed

lemma hydrate_nodes_console:
  "hydrate_nodes ns h = Inr h' \<Longrightarrow> n \<in> set ns \<Longrightarrow> node_switch (item_type n) = NotImplemented msg \<Longrightarrow>
   msg \<in> set (console h')"
proof -
  have mono: "hydrate_nodes ns h = Inr h' \<Longrightarrow> set (console h) \<subseteq> set (console h')" for ns h
  proof (induction ns arbitrary: h)
    case Nil
    then show ?case by simp
  next
    case (Cons x ns)
    show ?case
    proof (cases "node_switch (item_type x)")
      case (Construct c)
      with Cons.prems
      have "hydrate_nodes ns (h\<lparr>hydrated := AList.update (item_id x) (c, x) (hydrated h)\<rparr>) = Inr h'"
        by simp
      from Cons.IH [OF this] show ?thesis by simp
    next
      case (NotImplemented m)
      with Cons.prems have "hydrate_nodes ns (h\<lparr>console := console h @ [m]\<rparr>) = Inr h'" by simp
      from Cons.IH [OF this] show ?thesis by simp
    next
      case UnknownType
      with Cons.prems show ?thesis by simp
    qed
  qed
  show "hydrate_nodes ns h = Inr h' \<Longrightarrow> n \<in> set ns \<Longrightarrow>
        node_switch (item_type n) = NotImplemented msg \<Longrightarrow> msg \<in> set (console h')"
  proof (induction ns arbitrary: h)
    case Nil
    then show ?case by simp
  next
    case (Cons x ns)
    show ?case
    proof (cases "n = x")
      case True
      with Cons.prems have "hydrate_nodes ns (h\<lparr>console := console h @ [msg]\<rparr>) = Inr h'" by simp
      from mono [OF this] show ?thesis by auto
    next
      case False
      with Cons.prems have "n \<in> set ns" by simp
      with Cons show ?thesis by (auto split: node_case.splits)
    qed
  qed
qed

lemma hydrate_edges_console: "console (hydrate_edges es h) = console h"
  by (induction es arbitrary: h) auto

lemma hydrate_edges_keys:
  "fst ` set (hydrated (hydrate_edges es h)) = fst ` set (hydrated h) \<union> item_id ` set es"
  by (induction es arbitrary: h) (auto simp: dom_update)

lemma hydrate_edges_entry:
  "e \<in> set es \<Longrightarrow> distinct (map item_id es) \<Longrightarrow>
   map_of (hydrated (hydrate_edges es h)) (item_id e) = Some (edge_switch (item_type e), e)"
proof (induction es arbitrary: h)
  case Nil
  then show ?case by simp
next
  case (Cons x es)
  have keep: "k \<notin> item_id ` set es \<Longrightarrow>
              map_of (hydrated (hydrate_edges es h)) k = map_of (hydrated h) k" for k es h
    by (induction es arbitrary: h) (auto simp: update_conv')
  show ?case
  proof (cases "e \<in> set es")
    case True
    with Cons show ?thesis by simp
  next
    case False
    with Cons.prems have "e = x" "item_id x \<notin> item_id ` set es" by auto
    with keep show ?thesis by (simp add: update_conv')
  qed
qed

text \<open>
  Claim C10. \<^verbatim>\<open>hydrateGraph\<close> throws if and only if some node has a type tag outside
  the recognized set, and the error is the "Unknown node type" error of such a node.
  When it returns and the ids of the canvas are distinct, a node of type
  dynamic-reference, categorize or select has no entry in the graph under its id, and
  its console error has been logged. When it returns and the ids of the edges are
  distinct, every edge has its entry, whatever its type tag; an edge whose type is
  neither logging nor system-message is a generic \<^verbatim>\<open>CannoliEdge\<close>.
\<close>

theorem hydrateGraph_unknown_and_unimplemented_types:
  "((\<exists>err. hydrateGraph nodes edges = Inl err) \<longleftrightarrow>
      (\<exists>n \<in> set nodes. item_type n \<notin> Some ` set recognized_node_types)) \<and>
   (hydrateGraph nodes edges = Inl err \<longrightarrow>
      (\<exists>n \<in> set nodes. item_type n \<notin> Some ` set recognized_node_types \<and>
                        err = UnknownNodeType (item_type n))) \<and>
   (hydrateGraph nodes edges = Inr h \<and> n \<in> set nodes \<and>
    item_type n \<in> Some ` set unimplemented_node_types \<and>
    distinct (map item_id (nodes @ edges)) \<longrightarrow>
      map_of (hydrated h) (item_id n) = None \<and>
      (\<exists>msg. node_switch (item_type n) = NotImplemented msg \<and> msg \<in> set (console h))) \<and>
   (hydrateGraph nodes edges = Inr h \<and> e \<in> set edges \<and> distinct (map item_id edges) \<longrightarrow>
      (\<exists>c. map_of (hydrated h) (item_id e) = Some (c, e)) \<and>
      (item_type e \<noteq> Some EdgeType_Logging \<and> item_type e \<noteq> Some EdgeType_SystemMessage \<longrightarrow>
         map_of (hydrated h) (item_id e) = Some (CannoliEdge, e)))"
proof -
  let ?h0 = "\<lparr>hydrated = [], console = []\<rparr>"
  have fails: "(\<exists>err. hydrateGraph nodes edges = Inl err) \<longleftrightarrow>
      (\<exists>n \<in> set nodes. item_type n \<notin> Some ` set recognized_node_types)"
  proof -
    have "(\<exists>err. hydrateGraph nodes edges = Inl err) \<longleftrightarrow> (\<exists>err. hydrate_nodes nodes ?h0 = Inl err)"
      by (auto simp: hydrateGraph_def split: sum.splits)
    then show ?thesis
      unfolding hydrate_nodes_fails_iff node_switch_unknown_iff .
  qed
  have which: "\<exists>n \<in> set nodes. item_type n \<notin> Some ` set recognized_node_types \<and>
                        err = UnknownNodeType (item_type n)"
    if "hydrateGraph nodes edges = Inl err"
  proof -
    from that have "hydrate_nodes nodes ?h0 = Inl err"
      by (auto simp: hydrateGraph_def split: sum.splits)
    from hydrate_nodes_error [OF this] show ?thesis
      unfolding node_switch_unknown_iff .
  qed
  have omitted: "map_of (hydrated h) (item_id n) = None \<and>
      (\<exists>msg. node_switch (item_type n) = NotImplemented msg \<and> msg \<in> set (console h))"
    if ok: "hydrateGraph nodes edges = Inr h" and n: "n \<in> set nodes"
      and ty: "item_type n \<in> Some ` set unimplemented_node_types"
      and dist: "distinct (map item_id (nodes @ edges))"
  proof -
    from ok obtain h1 where h1: "hydrate_nodes nodes ?h0 = Inr h1" and h: "h = hydrate_edges edges h1"
      by (auto simp: hydrateGraph_def split: sum.splits)
    from ty obtain msg where msg: "node_switch (item_type n) = NotImplemented msg"
      using node_switch_unimplemented_iff by blast
    have only: "m = n" if "m \<in> set nodes" "item_id m = item_id n" for m
      using dist n that by (auto simp: distinct_map inj_on_def)
    have "item_id n \<notin> {item_id m | m. m \<in> set nodes \<and> (\<exists>c. node_switch (item_type m) = Construct c)}"
      using only msg by auto
    moreover have "item_id n \<notin> item_id ` set edges"
      using dist n by auto
    ultimately have "item_id n \<notin> fst ` set (hydrated h)"
      unfolding h hydrate_edges_keys hydrate_nodes_keys [OF h1] by simp
    then have "map_of (hydrated h) (item_id n) = None"
      by (simp add: map_of_eq_None_iff)
    moreover have "msg \<in> set (console h)"
      unfolding h hydrate_edges_console by (rule hydrate_nodes_console [OF h1 n msg])
    ultimately show ?thesis using msg by blast
  qed
  have edge: "(\<exists>c. map_of (hydrated h) (item_id e) = Some (c, e)) \<and>
      (item_type e \<noteq> Some EdgeType_Logging \<and> item_type e \<noteq> Some EdgeType_SystemMessage \<longrightarrow>
         map_of (hydrated h) (item_id e) = Some (CannoliEdge, e))"
    if ok: "hydrateGraph nodes edges = Inr h" and e: "e \<in> set edges"
      and dist: "distinct (map item_id edges)"
  proof -
    from ok obtain h1 where h: "h = hydrate_edges edges h1"
      by (auto simp: hydrateGraph_def split: sum.splits)
    have "map_of (hydrated h) (item_id e) = Some (edge_switch (item_type e), e)"
      unfolding h by (rule hydrate_edges_entry [OF e dist])
    then show ?thesis by (simp add: edge_switch_def)
  qed
  from fails which omitted edge show ?thesis by blast
qed

theorem hydrateGraph_unknown_and_unimplemented_types_witness:
  "hydrateGraph example_nodes example_edges = Inr example_hydration \<and>
   map_of (hydrated example_hydration) ''n2'' = None \<and>
   map_of (hydrated example_hydration) ''e1''
     = Some (CannoliEdge, \<lparr>item_id = ''e1'', item_type = Some ''chat''\<rparr>) \<and>
   (\<exists>err. hydrateGraph [\<lparr>item_id = ''w'', item_type = Some ''while''\<rparr>] example_edges = Inl err)"
proof -
  let ?n2 = "\<lparr>item_id = ''n2'', item_type = Some ''select''\<rparr>"
  let ?e1 = "\<lparr>item_id = ''e1'', item_type = Some ''chat''\<rparr>"
  let ?w = "\<lparr>item_id = ''w'', item_type = Some ''while''\<rparr>"
  have ok: "hydrateGraph example_nodes example_edges = Inr example_hydration"
    by (simp add: hydrateGraph_def example_nodes_def example_edges_def example_hydration_def
          node_switch_def edge_switch_def)
  have node: "hydrateGraph example_nodes example_edges = Inr example_hydration \<and>
              ?n2 \<in> set example_nodes \<and>
              item_type ?n2 \<in> Some ` set unimplemented_node_types \<and>
              distinct (map item_id (example_nodes @ example_edges))"
    using ok by (simp add: example_nodes_def example_edges_def unimplemented_node_types_def)
  have edge: "hydrateGraph example_nodes example_edges = Inr example_hydration \<and>
              ?e1 \<in> set example_edges \<and> distinct (map item_id example_edges)"
    using ok by (simp add: example_edges_def)
  have generic: "item_type ?e1 \<noteq> Some ''logging'' \<and> item_type ?e1 \<noteq> Some ''system-message''"
    by simp
  have unknown: "\<exists>n \<in> set [?w]. item_type n \<notin> Some ` set recognized_node_types"
    by (simp add: recognized_node_types_def)
  from node hydrateGraph_unknown_and_unimplemented_types
         [of example_nodes example_edges _ example_hydration ?n2 ?e1]
  have none: "map_of (hydrated example_hydration) (item_id ?n2) = None" by blast
  from edge generic hydrateGraph_unknown_and_unimplemented_types
         [of example_nodes example_edges _ example_hydration ?n2 ?e1]
  have some: "map_of (hydrated example_hydration) (item_id ?e1) = Some (CannoliEdge, ?e1)"
    by blast
  from unknown hydrateGraph_unknown_and_unimplemented_types [of "[?w]" example_edges]
  have fails: "\<exists>err. hydrateGraph [?w] example_edges = Inl err" by blast
  from ok none some fails show ?thesis by simp
qed


end
